theory Spec2Isabelle
  imports Main "HOL-Library.AList" "HOL-Library.Word"
begin

section \<open>Strings of the C++ standard library\<close>

text \<open>
  A \<open>std::string\<close> is a list of bytes. The operations below are the ones
  \<open>pers.cpp\<close> calls, with their exceptions as values of \<open>error\<close>.
\<close>

datatype error = Out_of_range | Filesystem_error

definition NUL :: char where
  "NUL = CHR 0x00"

definition NL :: char where
  "NL = CHR 0x0A"

text \<open>\<open>isspace\<close> in the classic locale: space, \<open>\t\<close>, \<open>\n\<close>, \<open>\v\<close>, \<open>\f\<close>, \<open>\r\<close>.\<close>

definition isspace :: "char \<Rightarrow> bool" where
  "isspace c = (c = CHR 0x20 \<or> c = CHR 0x09 \<or> c = CHR 0x0A \<or> c = CHR 0x0B
      \<or> c = CHR 0x0C \<or> c = CHR 0x0D)"

text \<open>\<open>s.substr(pos)\<close> and \<open>s.substr(pos, n)\<close> throw \<open>std::out_of_range\<close> when
  \<open>pos > s.size()\<close>.\<close>

definition substr :: "string \<Rightarrow> nat \<Rightarrow> error + string" where
  "substr s pos = (if pos > length s then Inl Out_of_range else Inr (drop pos s))"

definition substr_n :: "string \<Rightarrow> nat \<Rightarrow> nat \<Rightarrow> error + string" where
  "substr_n s pos n = (if pos > length s then Inl Out_of_range else Inr (take n (drop pos s)))"

text \<open>\<open>s.find_last_not_of(cs)\<close>: the index of the last byte of \<open>s\<close> that is not in
  \<open>cs\<close>; \<open>None\<close> stands for \<open>npos\<close>.\<close>

definition find_last_not_of :: "string \<Rightarrow> string \<Rightarrow> nat option" where
  "find_last_not_of s cs =
     (let r = dropWhile (\<lambda>c. c \<in> set cs) (rev s)
      in if r = [] then None else Some (length r - 1))"

text \<open>\<open>s.erase(pos)\<close> removes everything from \<open>pos\<close> on, and throws when
  \<open>pos > s.size()\<close>.\<close>

definition erase :: "string \<Rightarrow> nat \<Rightarrow> error + string" where
  "erase s pos = (if pos > length s then Inl Out_of_range else Inr (take pos s))"

text \<open>\<open>std::string(const char*)\<close>: the bytes before the first NUL.\<close>

definition c_str :: "string \<Rightarrow> string" where
  "c_str buffer = takeWhile (\<lambda>c. c \<noteq> NUL) buffer"

text \<open>\<open>std::to_string\<close> on unsigned and signed integers: decimal digits, with a
  leading minus sign for a negative number.\<close>

definition digit_char :: "nat \<Rightarrow> char" where
  "digit_char n = ''0123456789'' ! n"

fun digits10 :: "nat \<Rightarrow> string" where
  "digits10 n = (if n < 10 then [digit_char n] else digits10 (n div 10) @ [digit_char (n mod 10)])"

declare digits10.simps [simp del]

definition to_string :: "int \<Rightarrow> string" where
  "to_string i = (if i < 0 then CHR ''-'' # digits10 (nat (- i)) else digits10 (nat i))"

section \<open>Input streams\<close>

text \<open>
  An input stream is the bytes not yet consumed with its \<open>eofbit\<close> and \<open>failbit\<close>.
  Every extraction starts with a sentry: on a stream that is not \<open>good()\<close> it sets
  \<open>failbit\<close> and extracts nothing.
\<close>

record istream =
  pending :: string
  eofbit :: bool
  failbit :: bool

definition istringstream :: "string \<Rightarrow> istream" where
  "istringstream s = \<lparr>pending = s, eofbit = False, failbit = False\<rparr>"

definition good :: "istream \<Rightarrow> bool" where
  "good s = (\<not> eofbit s \<and> \<not> failbit s)"

text \<open>\<open>is >> str\<close>: skips leading whitespace (end of input there sets both bits and
  leaves \<open>str\<close> as it was), then takes bytes up to the next whitespace or the end of
  input; reaching the end sets \<open>eofbit\<close> only.\<close>

definition extract_word :: "istream \<Rightarrow> string \<Rightarrow> string \<times> istream" where
  "extract_word s str =
     (if \<not> good s then (str, s\<lparr>failbit := True\<rparr>)
      else let r = dropWhile isspace (pending s)
           in if r = [] then (str, s\<lparr>pending := [], eofbit := True, failbit := True\<rparr>)
              else let r' = dropWhile (\<lambda>c. \<not> isspace c) r
                   in (takeWhile (\<lambda>c. \<not> isspace c) r, s\<lparr>pending := r', eofbit := (r' = [])\<rparr>))"

text \<open>\<open>std::getline(is, str)\<close>: no whitespace is skipped; takes bytes up to the next
  newline, which is consumed and not stored, or up to the end of input, which sets
  \<open>eofbit\<close>; \<open>failbit\<close> is set when nothing at all was consumed.\<close>

definition getline :: "istream \<Rightarrow> string \<Rightarrow> string \<times> istream" where
  "getline s str =
     (if \<not> good s then (str, s\<lparr>failbit := True\<rparr>)
      else let line = takeWhile (\<lambda>c. c \<noteq> NL) (pending s)
           in (case dropWhile (\<lambda>c. c \<noteq> NL) (pending s) of
                 [] \<Rightarrow> (line, s\<lparr>pending := [], eofbit := True, failbit := (line = [])\<rparr>)
               | _ # r' \<Rightarrow> (line, s\<lparr>pending := r'\<rparr>)))"

text \<open>\<open>is >> n\<close> for an \<open>int\<close> (here \<open>pid_t\<close>), base ten: after the whitespace an
  optional sign and the digits that follow. With no digit the value stored is 0; a
  number outside the range of \<open>int\<close> is stored as the nearest bound; both set
  \<open>failbit\<close>. A stream that is not good, or ends in the whitespace, leaves \<open>n\<close>
  untouched.\<close>

definition isdigit :: "char \<Rightarrow> bool" where
  "isdigit c = (c \<in> set ''0123456789'')"

definition digit_val :: "char \<Rightarrow> nat" where
  "digit_val c = of_char c - 48"

definition decimal :: "string \<Rightarrow> nat" where
  "decimal ds = foldl (\<lambda>a c. 10 * a + digit_val c) 0 ds"

definition INT_MAX :: int where
  "INT_MAX = 2147483647"

definition INT_MIN :: int where
  "INT_MIN = - 2147483648"

definition extract_int :: "istream \<Rightarrow> int \<Rightarrow> int \<times> istream" where
  "extract_int s n =
     (if \<not> good s then (n, s\<lparr>failbit := True\<rparr>)
      else let r = dropWhile isspace (pending s)
           in if r = [] then (n, s\<lparr>pending := [], eofbit := True, failbit := True\<rparr>)
              else let neg = (hd r = CHR ''-'');
                       r1 = (if hd r = CHR ''-'' \<or> hd r = CHR ''+'' then tl r else r);
                       ds = takeWhile isdigit r1;
                       r2 = dropWhile isdigit r1;
                       v = (if neg then - int (decimal ds) else int (decimal ds))
                   in if ds = [] then (0, s\<lparr>pending := r2, eofbit := (r2 = []), failbit := True\<rparr>)
                      else if v < INT_MIN then (INT_MIN, s\<lparr>pending := r2, eofbit := (r2 = []), failbit := True\<rparr>)
                      else if v > INT_MAX then (INT_MAX, s\<lparr>pending := r2, eofbit := (r2 = []), failbit := True\<rparr>)
                      else (v, s\<lparr>pending := r2, eofbit := (r2 = [])\<rparr>))"

section \<open>The liveness check\<close>

text \<open>
  What \<open>is_daemon_running\<close> sees of the system: the marker file (the status query of
  \<open>fs::exists\<close> can fail, which throws \<open>filesystem_error\<close>; the file can be absent;
  it can exist and not open for reading; or it opens with some content), the value the
  uninitialised local \<open>pid\<close> happens to hold, and the outcome of \<open>kill(pid, 0)\<close> for
  every \<open>pid\<close>.
\<close>

datatype marker = Stat_failure | Absent | Unreadable | Content string

record os =
  pid_file :: marker
  uninitialised :: int
  kill0 :: "int \<Rightarrow> int"

definition is_daemon_running :: "os \<Rightarrow> error + bool" where
  "is_daemon_running sys =
     (case pid_file sys of
        Stat_failure \<Rightarrow> Inl Filesystem_error
      | Absent \<Rightarrow> Inr False
      | Unreadable \<Rightarrow> Inr (kill0 sys (uninitialised sys) = 0)
      | Content c \<Rightarrow>
          (let (pid, s) = extract_int (istringstream c) (uninitialised sys)
           in Inr (kill0 sys pid = 0)))"

section \<open>The daemon\<close>

definition FIFO_REQUEST :: string where
  "FIFO_REQUEST = ''/tmp/persistent_daemon_req''"

definition FIFO_RESPONSE :: string where
  "FIFO_RESPONSE = ''/tmp/persistent_daemon_resp''"

definition PID_FILE :: string where
  "PID_FILE = ''/tmp/persistent_daemon.pid''"

text \<open>
  The locals of \<open>daemon_main\<close> that live across iterations. \<open>state\<close> is the
  \<open>unordered_map\<close>, kept as an association list with one pair per key:
  \<open>state[k] = v\<close> is \<open>AList.update k v\<close>, \<open>state.find(k)\<close> is \<open>map_of\<close> and
  \<open>state.size()\<close> is the length. \<open>query_count\<close> is a 32-bit \<open>int\<close>; its increment
  wraps in two's complement (in C++ the overflow is undefined). \<open>start_time\<close> is a
  reading of the steady clock, counted in nanoseconds.
\<close>

record daemon =
  state :: "(string \<times> string) list"
  query_count :: "32 word"
  start_time :: int

definition daemon_init :: "int \<Rightarrow> daemon" where
  "daemon_init t0 =
     \<lparr>state = AList.update ''status'' ''running'' (AList.update ''version'' ''1.0'' []),
      query_count = 0,
      start_time = t0\<rparr>"

text \<open>\<open>duration_cast<seconds>\<close> of a count of nanoseconds: integer division that
  truncates towards zero.\<close>

definition duration_cast_seconds :: "int \<Rightarrow> int" where
  "duration_cast_seconds ns =
     (if ns \<ge> 0 then ns div 1000000000 else - ((- ns) div 1000000000))"

datatype control = Next | Break

text \<open>
  The body of the loop from \<open>std::string request(buffer)\<close> to the end of the
  \<open>if\<close> chain: the new locals, the response and whether the branch ends in
  \<open>break\<close>. \<open>now\<close> is what \<open>steady_clock::now()\<close> returns in the \<open>STATUS\<close> branch.
  An exception that nothing catches is the result \<open>Inl\<close>.
\<close>

definition process_request :: "daemon \<Rightarrow> int \<Rightarrow> string \<Rightarrow> error + (daemon \<times> string \<times> control)" where
  "process_request d now request =
     (if request = ''STATUS'' then
        (let seconds = duration_cast_seconds (now - start_time d);
             d' = d\<lparr>query_count := query_count d + 1\<rparr>
         in Inr (d',
              ''Status: Running'' @ [NL]
                @ ''Queries: '' @ to_string (sint (query_count d')) @ [NL]
                @ ''Uptime: '' @ to_string seconds @ '' seconds'' @ [NL]
                @ ''State entries: '' @ to_string (int (length (state d'))) @ [NL],
              Next))
      else case substr_n request 0 4 of Inl e \<Rightarrow> Inl e | Inr p \<Rightarrow>
        if p = ''SET '' then
          (case substr request 4 of Inl e \<Rightarrow> Inl e | Inr arg \<Rightarrow>
             (let (key, iss) = extract_word (istringstream arg) [] in
              if failbit iss then Inr (d, ''ERROR: Invalid SET command'', Next)
              else
                (let (val, iss') = getline iss [] in
                 if failbit iss' then Inr (d, ''ERROR: Invalid SET command'', Next)
                 else case substr val 1 of Inl e \<Rightarrow> Inl e | Inr val' \<Rightarrow>
                   Inr (d\<lparr>state := AList.update key val' (state d)\<rparr>,
                        ''OK: Set '' @ key @ '' = '' @ val', Next))))
        else if p = ''GET '' then
          (case substr request 4 of Inl e \<Rightarrow> Inl e | Inr key \<Rightarrow>
             (case erase key (case find_last_not_of key [CHR 0x20, CHR 0x0A, CHR 0x0D, CHR 0x09] of
                                None \<Rightarrow> 0 | Some i \<Rightarrow> i + 1) of
                Inl e \<Rightarrow> Inl e
              | Inr key' \<Rightarrow>
                 (case map_of (state d) key' of
                    Some v \<Rightarrow> Inr (d, ''VALUE: '' @ v, Next)
                  | None \<Rightarrow> Inr (d, ''ERROR: Key not found'', Next))))
        else if request = ''SHUTDOWN'' then Inr (d, ''Shutting down...'', Break)
        else Inr (d, ''ERROR: Unknown command. Use STATUS, GET <key>, SET <key> <value>, or SHUTDOWN'', Next))"

text \<open>
  What one pass through the loop meets outside the process: the descriptor returned
  by \<open>open(FIFO_REQUEST, O_RDONLY)\<close>, what \<open>read\<close> finds in the pipe (\<open>None\<close> when it
  fails and returns \<open>-1\<close>), the steady clock, what becomes of
  \<open>open(FIFO_RESPONSE, O_WRONLY)\<close> and what becomes of the \<open>write\<close> to that pipe if
  it is reached.

  Opening a pipe for writing blocks until a reader opens it: the call returns a
  descriptor (negative when it fails, as on a path that is gone), or it never returns.
  The \<open>write\<close> returns the length of the response, which then is in the pipe (a
  response is shorter than \<open>PIPE_BUF\<close>, so it is written whole or not at all); or it
  returns \<open>-1\<close>, which the code ignores; or, the reader having closed the pipe, it
  raises \<open>SIGPIPE\<close>, for which the code installs no handler, and the process is killed.
\<close>

datatype open_outcome = Open_returns int | Open_blocks

datatype write_outcome = Write_completes | Write_fails | Write_raises_SIGPIPE

record event =
  req_fd :: int
  incoming :: "string option"
  clock :: int
  resp_open :: open_outcome
  resp_write :: write_outcome

text \<open>\<open>read(fd, buffer, count)\<close> into a zeroed buffer of \<open>cap\<close> bytes: the byte count
  returned and the buffer afterwards.\<close>

definition read_fd :: "string option \<Rightarrow> nat \<Rightarrow> nat \<Rightarrow> int \<times> string" where
  "read_fd src cap count =
     (case src of
        None \<Rightarrow> (- 1, replicate cap NUL)
      | Some s \<Rightarrow> (int (length (take count s)),
                   take count s @ replicate (cap - length (take count s)) NUL))"

text \<open>The block that sends a response: \<open>open\<close>, then \<open>write\<close> and \<open>close\<close> under the
  guard \<open>resp_fd >= 0\<close>. It passes with the payload that reached the pipe, if any; or
  the process stays blocked in \<open>open\<close>; or it is killed in \<open>write\<close>.\<close>

datatype sending = Passed "string option" | Blocked_in_open | Killed_in_write

definition send_response :: "event \<Rightarrow> string \<Rightarrow> sending" where
  "send_response ev response =
     (case resp_open ev of
        Open_blocks \<Rightarrow> Blocked_in_open
      | Open_returns resp_fd \<Rightarrow>
          if resp_fd \<ge> 0 then
            (case resp_write ev of
               Write_completes \<Rightarrow> Passed (Some response)
             | Write_fails \<Rightarrow> Passed None
             | Write_raises_SIGPIPE \<Rightarrow> Killed_in_write)
          else Passed None)"

text \<open>
  One pass through the loop: it goes on to the next pass or leaves the loop, in both
  cases with the new locals and the payload written; or an exception ends the process;
  or a signal kills it; or it stays blocked with the new locals.
\<close>

datatype step =
    Continue daemon "string option"
  | Stop daemon "string option"
  | Terminate error
  | Killed
  | Blocked daemon

text \<open>The end of a pass, once the request is processed: the response is sent (in the
  \<open>SHUTDOWN\<close> branch by its own copy of the block, before \<open>break\<close>), and the loop goes
  on or is left.\<close>

definition respond :: "event \<Rightarrow> daemon \<Rightarrow> string \<Rightarrow> control \<Rightarrow> step" where
  "respond ev d response c =
     (case send_response ev response of
        Blocked_in_open \<Rightarrow> Blocked d
      | Killed_in_write \<Rightarrow> Killed
      | Passed out \<Rightarrow> (case c of Break \<Rightarrow> Stop d out | Next \<Rightarrow> Continue d out))"

definition iteration :: "daemon \<Rightarrow> event \<Rightarrow> step" where
  "iteration d ev =
     (if req_fd ev < 0 then Continue d None
      else let (bytes, buffer) = read_fd (incoming ev) 1024 1023 in
        if bytes \<le> 0 then Continue d None
        else case process_request d (clock ev) (c_str buffer) of
               Inl e \<Rightarrow> Terminate e
             | Inr (d', response, c) \<Rightarrow> respond ev d' response c)"

text \<open>
  The world outside: the paths that exist, the paths this process can neither remove
  nor create (\<open>unlink\<close> and \<open>mkfifo\<close> fail on them, and the code ignores their
  results), and a log of the calls the daemon made and the payloads it wrote, in order.
\<close>

datatype action = Sent string | Called_unlink string | Called_mkfifo string

record world =
  files :: "string set"
  denied :: "string set"
  log :: "action list"

definition unlink :: "string \<Rightarrow> world \<Rightarrow> world" where
  "unlink p w =
     w\<lparr>files := (if p \<in> denied w then files w else files w - {p}),
       log := log w @ [Called_unlink p]\<rparr>"

definition mkfifo :: "string \<Rightarrow> world \<Rightarrow> world" where
  "mkfifo p w =
     w\<lparr>files := (if p \<in> denied w then files w else insert p (files w)),
       log := log w @ [Called_mkfifo p]\<rparr>"

definition deliver :: "string option \<Rightarrow> world \<Rightarrow> world" where
  "deliver out w = (case out of None \<Rightarrow> w | Some r \<Rightarrow> w\<lparr>log := log w @ [Sent r]\<rparr>)"

text \<open>
  The \<open>while (true)\<close> loop, driven by the list of events the environment supplies: with
  no event left the daemon is blocked in the \<open>open\<close> of the request pipe, still
  serving.
\<close>

datatype run =
    Serving daemon world
  | Left_loop daemon world
  | Aborted error world
  | Signalled world
  | Stuck daemon world

fun serve :: "daemon \<Rightarrow> world \<Rightarrow> event list \<Rightarrow> run" where
  "serve d w [] = Serving d w"
| "serve d w (ev # evs) =
     (case iteration d ev of
        Continue d' out \<Rightarrow> serve d' (deliver out w) evs
      | Stop d' out \<Rightarrow> Left_loop d' (deliver out w)
      | Terminate e \<Rightarrow> Aborted e w
      | Killed \<Rightarrow> Signalled w
      | Blocked d' \<Rightarrow> Stuck d' w)"

text \<open>\<open>daemon_main\<close> returns only when the loop is left; it then removes the pipes and
  the marker. Otherwise the daemon is still running, or has been ended by an exception
  or a signal, or hangs in the \<open>open\<close> of the response pipe.\<close>

datatype exit =
    Running daemon world
  | Exited world
  | Crashed error world
  | Killed_by_signal world
  | Hung daemon world

definition daemon_main :: "world \<Rightarrow> int \<Rightarrow> event list \<Rightarrow> exit" where
  "daemon_main w t0 evs =
     (let w1 = mkfifo FIFO_RESPONSE (mkfifo FIFO_REQUEST (unlink FIFO_RESPONSE (unlink FIFO_REQUEST w)))
      in case serve (daemon_init t0) w1 evs of
           Serving d w' \<Rightarrow> Running d w'
         | Left_loop d w' \<Rightarrow> Exited (unlink PID_FILE (unlink FIFO_RESPONSE (unlink FIFO_REQUEST w')))
         | Aborted e w' \<Rightarrow> Crashed e w'
         | Signalled w' \<Rightarrow> Killed_by_signal w'
         | Stuck d w' \<Rightarrow> Hung d w')"

section \<open>The client\<close>



section \<open>Notions of the specification\<close>

text \<open>
  The specification speaks of trimming trailing whitespace and control characters from
  the key of a \<open>GET\<close>. \<open>trim_whitespace_control\<close> follows these words: it removes the
  longest suffix of bytes that are whitespace (\<open>isspace\<close>) or control characters
  (\<open>iscntrl\<close>: the bytes below \<open>0x20\<close> and \<open>0x7F\<close>). \<open>rtrim\<close> is the narrower notion,
  which removes the longest suffix of spaces, newlines, carriage returns and tabs.
\<close>

definition iscntrl :: "char \<Rightarrow> bool" where
  "iscntrl c = ((of_char c :: nat) < 32 \<or> c = CHR 0x7F)"

definition trim_whitespace_control :: "string \<Rightarrow> string" where
  "trim_whitespace_control s = rev (dropWhile (\<lambda>c. isspace c \<or> iscntrl c) (rev s))"

definition rtrim :: "string \<Rightarrow> string" where
  "rtrim s = rev (dropWhile (\<lambda>c. c \<in> set [CHR 0x20, CHR 0x0A, CHR 0x0D, CHR 0x09]) (rev s))"

text \<open>
  The request an iteration processes, if it gets as far as processing one: the request
  pipe opened and the read returned a positive count.
\<close>

definition received :: "event \<Rightarrow> string option" where
  "received ev =
     (if req_fd ev < 0 then None
      else let (bytes, buffer) = read_fd (incoming ev) 1024 1023 in
        if bytes \<le> 0 then None else Some (c_str buffer))"

text \<open>The number of requests processed in a run, and the number of those that were
  \<open>STATUS\<close>.\<close>

definition processed :: "event list \<Rightarrow> nat" where
  "processed evs = length (filter (\<lambda>ev. received ev \<noteq> None) evs)"

definition status_served :: "event list \<Rightarrow> nat" where
  "status_served evs = length (filter (\<lambda>ev. received ev = Some ''STATUS'') evs)"

section \<open>Basic facts\<close>

lemma substr_n_0: "substr_n s 0 n = Inr (take n s)"
  by (simp add: substr_n_def)

lemma takeWhile_replicate_NUL: "takeWhile (\<lambda>c. c \<noteq> NUL) (xs @ replicate n NUL) = takeWhile (\<lambda>c. c \<noteq> NUL) xs"
  by (induction xs) (cases n, auto)

lemma c_str_read: "c_str (snd (read_fd (Some s) 1024 1023)) = takeWhile (\<lambda>c. c \<noteq> NUL) (take 1023 s)"
  by (simp add: c_str_def read_fd_def takeWhile_replicate_NUL)

lemma read_fd_bytes: "fst (read_fd (Some s) 1024 1023) = int (min (length s) 1023)"
  by (simp add: read_fd_def)

lemma iteration_request:
  assumes "req_fd ev \<ge> 0" "incoming ev = Some s" "s \<noteq> []"
  shows "iteration d ev =
    (case process_request d (clock ev) (takeWhile (\<lambda>c. c \<noteq> NUL) (take 1023 s)) of
       Inl e \<Rightarrow> Terminate e
     | Inr (d', r, c) \<Rightarrow> respond ev d' r c)"
proof -
  obtain b buf where rd: "read_fd (incoming ev) 1024 1023 = (b, buf)"
    by (cases "read_fd (incoming ev) 1024 1023")
  have b: "b = int (min (length s) 1023)"
    using read_fd_bytes [of s] rd assms(2) by simp
  have buf: "c_str buf = takeWhile (\<lambda>c. c \<noteq> NUL) (take 1023 s)"
    using c_str_read [of s] rd assms(2) by simp
  have pos: "\<not> b \<le> 0"
    using b assms(3) by (cases s) auto
  show ?thesis
    using assms(1) pos by (simp add: iteration_def rd buf)
qed

lemma rtrim_take: "take (length (dropWhile P (rev s))) s = rev (dropWhile P (rev s))"
proof -
  have "rev s = takeWhile P (rev s) @ dropWhile P (rev s)" by simp
  then have "s = rev (dropWhile P (rev s)) @ rev (takeWhile P (rev s))"
    by (metis rev_append rev_rev_ident)
  then have "take (length (dropWhile P (rev s))) s
      = take (length (rev (dropWhile P (rev s)))) (rev (dropWhile P (rev s)) @ rev (takeWhile P (rev s)))"
    by simp
  then show ?thesis by simp
qed

lemma erase_find_last_not_of:
  "erase s (case find_last_not_of s cs of None \<Rightarrow> 0 | Some i \<Rightarrow> i + 1)
     = Inr (rev (dropWhile (\<lambda>c. c \<in> set cs) (rev s)))"
proof (cases "dropWhile (\<lambda>c. c \<in> set cs) (rev s) = []")
  case True
  then show ?thesis by (simp add: erase_def find_last_not_of_def)
next
  case False
  then have pos: "length (dropWhile (\<lambda>c. c \<in> set cs) (rev s)) - 1 + 1 = length (dropWhile (\<lambda>c. c \<in> set cs) (rev s))"
    by (cases "dropWhile (\<lambda>c. c \<in> set cs) (rev s)") auto
  have le: "length (dropWhile (\<lambda>c. c \<in> set cs) (rev s)) \<le> length s"
    using length_dropWhile_le [of "\<lambda>c. c \<in> set cs" "rev s"] by simp
  show ?thesis
    using False le by (simp add: erase_def find_last_not_of_def Let_def pos rtrim_take)
qed

lemma process_GET:
  "process_request d now (''GET '' @ arg) =
     Inr (d, (case map_of (state d) (rev (dropWhile (\<lambda>c. c \<in> set [CHR 0x20, CHR 0x0A, CHR 0x0D, CHR 0x09]) (rev arg))) of
                Some v \<Rightarrow> ''VALUE: '' @ v | None \<Rightarrow> ''ERROR: Key not found''), Next)"
  by (simp add: process_request_def substr_n_0 substr_def erase_find_last_not_of del: set_simps split: option.split)

lemma process_STATUS:
  "process_request d now ''STATUS'' =
     Inr (d\<lparr>query_count := query_count d + 1\<rparr>,
          ''Status: Running'' @ [NL] @ ''Queries: '' @ to_string (sint (query_count d + 1)) @ [NL]
            @ ''Uptime: '' @ to_string (duration_cast_seconds (now - start_time d)) @ '' seconds'' @ [NL]
            @ ''State entries: '' @ to_string (int (length (state d))) @ [NL], Next)"
  by (simp add: process_request_def Let_def)


lemma extract_word_token:
  assumes "\<forall>c\<in>set ws. isspace c" "k \<noteq> []" "\<forall>c\<in>set k. \<not> isspace c" "r = [] \<or> isspace (hd r)"
  shows "extract_word (istringstream (ws @ k @ r)) str = (k, \<lparr>pending = r, eofbit = (r = []), failbit = False\<rparr>)"
proof -
  have hd: "\<not> isspace (hd k)" using assms(2,3) by (cases k) auto
  have dw: "dropWhile isspace (ws @ k @ r) = k @ r"
    using assms(1,2) hd by (cases k) (auto simp: dropWhile_append2)
  have tw: "takeWhile (\<lambda>c. \<not> isspace c) (k @ r) = k"
    using assms(3,4) by (cases r) (auto simp: takeWhile_append2)
  have dw2: "dropWhile (\<lambda>c. \<not> isspace c) (k @ r) = r"
    using assms(3,4) by (cases r) (auto simp: dropWhile_append2)
  show ?thesis
    using assms(2) by (simp add: extract_word_def istringstream_def good_def dw tw dw2 Let_def)
qed

lemma process_SET_ok:
  assumes "k \<noteq> []" "\<forall>c\<in>set k. \<not> isspace c" "NL \<notin> set v"
  shows "process_request d now (''SET '' @ k @ '' '' @ v) =
     Inr (d\<lparr>state := AList.update k v (state d)\<rparr>, ''OK: Set '' @ k @ '' = '' @ v, Next)"
proof -
  have ew: "extract_word (istringstream (k @ CHR '' '' # v)) [] = (k, \<lparr>pending = CHR '' '' # v, eofbit = False, failbit = False\<rparr>)"
    using extract_word_token [of "[]" k "CHR '' '' # v" "[]"] assms(1,2) by (simp add: isspace_def)
  have sp: "CHR '' '' \<noteq> NL" by (simp add: NL_def)
  have tw: "takeWhile (\<lambda>c. c \<noteq> NL) v = v"
    using assms(3) by (auto simp: takeWhile_eq_all_conv)
  have dw: "dropWhile (\<lambda>c. c \<noteq> NL) v = []"
    using assms(3) by auto
  have gl: "getline \<lparr>pending = CHR '' '' # v, eofbit = False, failbit = False\<rparr> [] =
      (CHR '' '' # v, \<lparr>pending = [], eofbit = True, failbit = False\<rparr>)"
    by (simp add: getline_def good_def Let_def tw dw sp)
  show ?thesis
    by (simp add: process_request_def substr_n_0 substr_def ew gl)
qed

lemma process_SET_no_value:
  assumes "\<forall>c\<in>set ws. isspace c" "\<forall>c\<in>set k. \<not> isspace c"
  shows "process_request d now (''SET '' @ ws @ k) = Inr (d, ''ERROR: Invalid SET command'', Next)"
proof (cases "k = []")
  case True
  have dw: "dropWhile isspace ws = []" using assms(1) by simp
  show ?thesis
    using True by (simp add: process_request_def substr_n_0 substr_def extract_word_def istringstream_def good_def dw)
next
  case False
  have ew: "extract_word (istringstream (ws @ k)) [] = (k, \<lparr>pending = [], eofbit = True, failbit = False\<rparr>)"
    using extract_word_token [of ws k "[]" "[]"] assms False by simp
  show ?thesis
    by (simp add: process_request_def substr_n_0 substr_def ew getline_def good_def)
qed

lemma process_SET_newline:
  assumes "\<forall>c\<in>set ws. isspace c" "k \<noteq> []" "\<forall>c\<in>set k. \<not> isspace c"
  shows "process_request d now (''SET '' @ ws @ k @ NL # rest) = Inl Out_of_range"
proof -
  have ew: "extract_word (istringstream (ws @ k @ NL # rest)) [] = (k, \<lparr>pending = NL # rest, eofbit = False, failbit = False\<rparr>)"
    using extract_word_token [of ws k "NL # rest" "[]"] assms by (simp add: isspace_def NL_def)
  have gl: "getline \<lparr>pending = NL # rest, eofbit = False, failbit = False\<rparr> [] =
      ([], \<lparr>pending = rest, eofbit = False, failbit = False\<rparr>)"
    by (simp add: getline_def good_def Let_def)
  show ?thesis
    by (simp add: process_request_def substr_n_0 substr_def ew gl)
qed

lemma token_prefix:
  assumes "\<forall>c\<in>set (dropWhile isspace (y @ z)). \<not> isspace c"
  shows "\<forall>c\<in>set (dropWhile isspace y). \<not> isspace c"
proof (cases "\<forall>c\<in>set y. isspace c")
  case True
  then have "dropWhile isspace y = []" by simp
  then show ?thesis by (metis empty_iff empty_set)
next
  case False
  then obtain c where "c \<in> set y" "\<not> isspace c" by blast
  then have "dropWhile isspace (y @ z) = dropWhile isspace y @ z"
    by (rule dropWhile_append1)
  with assms have "\<forall>c\<in>set (dropWhile isspace y @ z). \<not> isspace c"
    by (simp only:)
  then show ?thesis by (metis Un_iff set_append)
qed

lemma process_SET_token_only:
  assumes "\<forall>c\<in>set (dropWhile isspace arg). \<not> isspace c"
  shows "process_request d now (''SET '' @ arg) = Inr (d, ''ERROR: Invalid SET command'', Next)"
proof -
  have ws: "\<forall>c\<in>set (takeWhile isspace arg). isspace c"
    using set_takeWhileD by fast
  have "process_request d now (''SET '' @ takeWhile isspace arg @ dropWhile isspace arg)
      = Inr (d, ''ERROR: Invalid SET command'', Next)"
    using ws assms by (rule process_SET_no_value)
  then show ?thesis by (simp only: takeWhile_dropWhile_id)
qed

lemma truncate_SET:
  "takeWhile (\<lambda>c. c \<noteq> NUL) (take 1023 (''SET '' @ arg)) = ''SET '' @ takeWhile (\<lambda>c. c \<noteq> NUL) (take 1019 arg)"
  by (simp add: NUL_def)

lemma iteration_plain:
  assumes "req_fd ev \<ge> 0" "incoming ev = Some s" "s \<noteq> []" "length s \<le> 1023" "NUL \<notin> set s"
  shows "iteration d ev =
    (case process_request d (clock ev) s of
       Inl e \<Rightarrow> Terminate e
     | Inr (d', r, c) \<Rightarrow> respond ev d' r c)"
proof -
  have "takeWhile (\<lambda>c. c \<noteq> NUL) (take 1023 s) = s"
    using assms(4,5) by (auto simp: takeWhile_eq_all_conv)
  then show ?thesis
    using iteration_request [OF assms(1-3), of d] by (simp only:)
qed

lemma received_request:
  assumes "req_fd ev \<ge> 0" "incoming ev = Some s" "s \<noteq> []"
  shows "received ev = Some (takeWhile (\<lambda>c. c \<noteq> NUL) (take 1023 s))"
proof -
  have "0 < min (length s) 1023" using assms(3) by (cases s) auto
  then show ?thesis
    using assms(1,2) by (simp add: received_def read_fd_def c_str_def takeWhile_replicate_NUL)
qed

lemma received_plain:
  assumes "req_fd ev \<ge> 0" "incoming ev = Some s" "s \<noteq> []" "length s \<le> 1023" "NUL \<notin> set s"
  shows "received ev = Some s"
proof -
  have "takeWhile (\<lambda>c. c \<noteq> NUL) (take 1023 s) = s"
    using assms(4,5) by (auto simp: takeWhile_eq_all_conv)
  then show ?thesis
    using received_request [OF assms(1-3)] by simp
qed

lemma respond_passes:
  assumes "resp_open ev = Open_returns fd" "fd < 0 \<or> resp_write ev \<noteq> Write_raises_SIGPIPE"
  shows "respond ev d r c =
    (case c of
       Break \<Rightarrow> Stop d (if 0 \<le> fd \<and> resp_write ev = Write_completes then Some r else None)
     | Next \<Rightarrow> Continue d (if 0 \<le> fd \<and> resp_write ev = Write_completes then Some r else None))"
  using assms by (cases "resp_write ev") (auto simp: respond_def send_response_def split: control.splits)


lemma respond_daemon:
  assumes "respond ev d1 r c = Continue d' out \<or> respond ev d1 r c = Stop d' out"
  shows "d' = d1"
  using assms by (auto simp: respond_def split: sending.splits control.splits)

section \<open>Claims about single requests\<close>

text \<open>
  Claim C3 says that processing a request never terminates the daemon. It does on a
  \<open>SET\<close> whose key is followed at once by a newline: \<open>getline\<close> succeeds with an empty
  line, \<open>value.substr(1)\<close> throws \<open>std::out_of_range\<close>, nothing catches it, and the
  daemon ends without the cleanup: the pipes stay as they were made. The theorem
  evaluates the code on the request \<open>SET k\<close> followed by a newline, in any daemon
  state.
\<close>

theorem set_without_value_after_newline_aborts:
  "iteration d \<lparr>req_fd = 3, incoming = Some ''SET k\<newline>'', clock = t, resp_open = Open_returns 4, resp_write = Write_completes\<rparr> = Terminate Out_of_range
   \<and> serve d w (\<lparr>req_fd = 3, incoming = Some ''SET k\<newline>'', clock = t, resp_open = Open_returns 4, resp_write = Write_completes\<rparr> # evs) = Aborted Out_of_range w
   \<and> daemon_main w t0 (\<lparr>req_fd = 3, incoming = Some ''SET k\<newline>'', clock = t, resp_open = Open_returns 4, resp_write = Write_completes\<rparr> # evs) =
       Crashed Out_of_range
         (mkfifo FIFO_RESPONSE (mkfifo FIFO_REQUEST (unlink FIFO_RESPONSE (unlink FIFO_REQUEST w))))"
proof -
  let ?ev = "\<lparr>req_fd = 3, incoming = Some ''SET k\<newline>'', clock = t, resp_open = Open_returns 4, resp_write = Write_completes\<rparr>"
  have "iteration d' ?ev = Terminate Out_of_range" for d'
    using process_SET_newline [of "[]" "''k''" d' t "[]"] iteration_plain [of ?ev "''SET k\<newline>''" d']
    by (simp add: isspace_def NL_def NUL_def)
  then show ?thesis by (simp add: daemon_main_def)
qed

text \<open>
  The daemon is ended as well by a response that nobody reads to the end: when the
  reader has closed the response pipe before the \<open>write\<close>, the write raises
  \<open>SIGPIPE\<close> and the process is killed, again without the cleanup. Here the request
  is \<open>GET version\<close>, in any daemon state.
\<close>

lemma write_to_closed_pipe_kills:
  "iteration d \<lparr>req_fd = 3, incoming = Some ''GET version'', clock = t, resp_open = Open_returns 4, resp_write = Write_raises_SIGPIPE\<rparr> = Killed
   \<and> serve d w (\<lparr>req_fd = 3, incoming = Some ''GET version'', clock = t, resp_open = Open_returns 4, resp_write = Write_raises_SIGPIPE\<rparr> # evs) = Signalled w
   \<and> daemon_main w t0 (\<lparr>req_fd = 3, incoming = Some ''GET version'', clock = t, resp_open = Open_returns 4, resp_write = Write_raises_SIGPIPE\<rparr> # evs) =
       Killed_by_signal
         (mkfifo FIFO_RESPONSE (mkfifo FIFO_REQUEST (unlink FIFO_RESPONSE (unlink FIFO_REQUEST w))))"
proof -
  let ?ev = "\<lparr>req_fd = 3, incoming = Some ''GET version'', clock = t, resp_open = Open_returns 4, resp_write = Write_raises_SIGPIPE\<rparr>"
  have "iteration d' ?ev = Killed" for d'
    using process_GET [of d' t "''version''"] iteration_plain [of ?ev "''GET version''" d']
    by (simp add: NUL_def respond_def send_response_def)
  then show ?thesis by (simp add: daemon_main_def)
qed

text \<open>
  Claim C6: a \<open>SET\<close> request with a key and no separator and value (as \<open>SET onlykey\<close>)
  is answered with the invalid-command response, and the daemon's locals, the store
  among them, are what they were. The request is whatever follows \<open>SET\<close> and a space,
  as long as no whitespace comes after the first token; it may be longer than the
  buffer or hold NUL bytes. The first conjunct is the branch of the Command Processor;
  the others say what the pass through the loop makes of its result: the response is
  handed to the sending block, is in the pipe when the pipe opens and the write completes,
  and is dropped when the open or the write fails.
\<close>

theorem malformed_set_rejected:
  assumes "req_fd ev \<ge> 0" and "incoming ev = Some (''SET '' @ arg)"
    and "\<forall>c\<in>set (dropWhile isspace arg). \<not> isspace c"
  shows "(\<exists>r. received ev = Some r
            \<and> process_request d (clock ev) r = Inr (d, ''ERROR: Invalid SET command'', Next))
    \<and> iteration d ev = respond ev d ''ERROR: Invalid SET command'' Next
    \<and> (resp_open ev = Open_returns fd \<and> 0 \<le> fd \<and> resp_write ev = Write_completes \<longrightarrow>
          iteration d ev = Continue d (Some ''ERROR: Invalid SET command''))
    \<and> (resp_open ev = Open_returns fd \<and> (fd < 0 \<or> resp_write ev = Write_fails) \<longrightarrow>
          iteration d ev = Continue d None)"
proof -
  let ?arg' = "takeWhile (\<lambda>c. c \<noteq> NUL) (take 1019 arg)"
  have "arg = ?arg' @ (dropWhile (\<lambda>c. c \<noteq> NUL) (take 1019 arg) @ drop 1019 arg)"
    by (simp only: append_assoc [symmetric] takeWhile_dropWhile_id append_take_drop_id)
  then have "\<forall>c\<in>set (dropWhile isspace (?arg' @ (dropWhile (\<lambda>c. c \<noteq> NUL) (take 1019 arg) @ drop 1019 arg))). \<not> isspace c"
    using assms(3) by simp
  then have tok: "\<forall>c\<in>set (dropWhile isspace ?arg'). \<not> isspace c"
    by (rule token_prefix)
  have pr: "process_request d (clock ev) (''SET '' @ ?arg') = Inr (d, ''ERROR: Invalid SET command'', Next)"
    using tok by (rule process_SET_token_only)
  have rc: "received ev = Some (''SET '' @ ?arg')"
    using received_request [OF assms(1,2)] by (simp only: truncate_SET) simp
  have "iteration d ev =
    (case process_request d (clock ev) (takeWhile (\<lambda>c. c \<noteq> NUL) (take 1023 (''SET '' @ arg))) of
       Inl e \<Rightarrow> Terminate e
     | Inr (d', r, c) \<Rightarrow> respond ev d' r c)"
    using assms(1,2) by (rule iteration_request) simp
  then have it: "iteration d ev = respond ev d ''ERROR: Invalid SET command'' Next"
    by (simp only: truncate_SET pr) simp
  have "iteration d ev = Continue d (Some ''ERROR: Invalid SET command'')"
    if "resp_open ev = Open_returns fd" "0 \<le> fd" "resp_write ev = Write_completes"
    using that it respond_passes [of ev fd d "''ERROR: Invalid SET command''" Next] by simp
  moreover have "iteration d ev = Continue d None"
    if "resp_open ev = Open_returns fd" "fd < 0 \<or> resp_write ev = Write_fails"
    using that it respond_passes [of ev fd d "''ERROR: Invalid SET command''" Next] by auto
  ultimately show ?thesis
    using rc pr it by blast
qed

theorem malformed_set_rejected_witness:
  "process_request (daemon_init 0) 0 ''SET onlykey'' = Inr (daemon_init 0, ''ERROR: Invalid SET command'', Next)
   \<and> iteration (daemon_init 0)
        \<lparr>req_fd = 3, incoming = Some ''SET onlykey'', clock = 0, resp_open = Open_returns 4, resp_write = Write_completes\<rparr>
     = Continue (daemon_init 0) (Some ''ERROR: Invalid SET command'')
   \<and> iteration (daemon_init 0)
        \<lparr>req_fd = 3, incoming = Some ''SET onlykey'', clock = 0, resp_open = Open_returns (- 1), resp_write = Write_completes\<rparr>
     = Continue (daemon_init 0) None
   \<and> map_of (state (daemon_init 0)) ''onlykey'' = None"
proof -
  let ?e1 = "\<lparr>req_fd = 3, incoming = Some (''SET '' @ ''onlykey''), clock = 0, resp_open = Open_returns 4, resp_write = Write_completes\<rparr>"
  let ?e2 = "\<lparr>req_fd = 3, incoming = Some (''SET '' @ ''onlykey''), clock = 0, resp_open = Open_returns (- 1), resp_write = Write_completes\<rparr>"
  have tok: "\<forall>c\<in>set (dropWhile isspace ''onlykey''). \<not> isspace c"
    by (simp add: isspace_def)
  have r1: "received ?e1 = Some ''SET onlykey''"
    using received_plain [of ?e1 "''SET onlykey''"] by (simp add: NUL_def)
  have h1: "0 \<le> req_fd ?e1" "incoming ?e1 = Some (''SET '' @ ''onlykey'')"
    and h2: "0 \<le> req_fd ?e2" "incoming ?e2 = Some (''SET '' @ ''onlykey'')"
    by simp_all
  show ?thesis
    using malformed_set_rejected [OF h1 tok, of "daemon_init 0" 4]
      malformed_set_rejected [OF h2 tok, of "daemon_init 0" "- 1"] r1
    by (simp add: daemon_init_def respond_def send_response_def)
qed

text \<open>
  Claim C7 says that every \<open>GET\<close> trims trailing whitespace and control characters
  from the key. The code erases after the last byte that is not one of four: space,
  newline, carriage return, tab. A vertical tab, which is whitespace and a control
  character, stays in the key: \<open>version\<close> is in the store, and \<open>GET version\<close>
  followed by a vertical tab gets the key-not-found response.
\<close>

theorem get_keeps_trailing_vertical_tab:
  "trim_whitespace_control (''version'' @ [CHR 0x0B]) = ''version''
   \<and> map_of (state (daemon_init 0)) ''version'' = Some ''1.0''
   \<and> process_request (daemon_init 0) 0 (''GET '' @ ''version'' @ [CHR 0x0B]) =
       Inr (daemon_init 0, ''ERROR: Key not found'', Next)"
proof -
  have "rtrim (''version'' @ [CHR 0x0B]) = ''version'' @ [CHR 0x0B]"
    by (simp add: rtrim_def)
  then have "process_request (daemon_init 0) 0 (''GET '' @ ''version'' @ [CHR 0x0B]) =
       Inr (daemon_init 0, ''ERROR: Key not found'', Next)"
    using process_GET [of "daemon_init 0" 0 "''version'' @ [CHR 0x0B]"]
    by (simp add: rtrim_def daemon_init_def)
  then show ?thesis
    by (simp add: trim_whitespace_control_def isspace_def iscntrl_def daemon_init_def)
qed

text \<open>
  Claim C7, amended: for every \<open>GET\<close> request the key is what follows \<open>GET\<close> and a
  space with its trailing spaces, newlines, carriage returns and tabs trimmed, and no
  other byte; the response of the Command Processor is the stored value if that key is
  present and the key-not-found error otherwise; the daemon's locals are returned
  unchanged, so no entry is created.
\<close>

theorem get_reads_only:
  "process_request d now (''GET '' @ arg) =
     Inr (d, (case map_of (state d) (rtrim arg) of
                Some v \<Rightarrow> ''VALUE: '' @ v
              | None \<Rightarrow> ''ERROR: Key not found''), Next)"
  unfolding rtrim_def by (rule process_GET)

theorem get_reads_only_witness:
  "process_request (daemon_init 0) 0 ''GET version \<newline>'' = Inr (daemon_init 0, ''VALUE: 1.0'', Next)
   \<and> process_request (daemon_init 0) 0 ''GET nope'' = Inr (daemon_init 0, ''ERROR: Key not found'', Next)"
proof -
  have a: "rtrim ''version \<newline>'' = ''version''" and b: "rtrim ''nope'' = ''nope''"
    by (simp_all add: rtrim_def)
  have s: "state (daemon_init 0) = [(''version'', ''1.0''), (''status'', ''running'')]"
    by (simp add: daemon_init_def)
  show ?thesis
    using get_reads_only [of "daemon_init 0" 0 "''version \<newline>''"] get_reads_only [of "daemon_init 0" 0 "''nope''"]
    by (simp add: a b s)
qed

text \<open>
  Claim C8: when the read from the request pipe returns a count that is zero or
  negative, the iteration writes no response, changes none of the daemon's locals and
  the loop goes on with the next \<open>open\<close>.
\<close>

theorem empty_read_is_noop:
  assumes "fst (read_fd (incoming ev) 1024 1023) \<le> 0"
  shows "iteration d ev = Continue d None \<and> serve d w (ev # evs) = serve d w evs"
proof -
  have "iteration d ev = Continue d None"
    using assms by (cases "read_fd (incoming ev) 1024 1023") (simp add: iteration_def)
  then show ?thesis by (simp add: deliver_def)
qed

theorem empty_read_is_noop_witness:
  "fst (read_fd (incoming \<lparr>req_fd = 3, incoming = Some [], clock = 0, resp_open = Open_returns 4, resp_write = Write_completes\<rparr>) 1024 1023) \<le> 0
   \<and> iteration (daemon_init 0) \<lparr>req_fd = 3, incoming = Some [], clock = 0, resp_open = Open_returns 4, resp_write = Write_completes\<rparr> = Continue (daemon_init 0) None
   \<and> serve (daemon_init 0) \<lparr>files = {}, denied = {}, log = []\<rparr> [\<lparr>req_fd = 3, incoming = Some [], clock = 0, resp_open = Open_returns 4, resp_write = Write_completes\<rparr>]
       = Serving (daemon_init 0) \<lparr>files = {}, denied = {}, log = []\<rparr>"
proof -
  have h: "fst (read_fd (incoming \<lparr>req_fd = 3, incoming = Some [], clock = 0, resp_open = Open_returns 4, resp_write = Write_completes\<rparr>) 1024 1023) \<le> 0"
    by (simp add: read_fd_def)
  show ?thesis
    using h empty_read_is_noop [OF h, of "daemon_init 0" "\<lparr>files = {}, denied = {}, log = []\<rparr>" "[]"]
    by (simp del: serve.simps(2)) 
qed

section \<open>Claims about runs of the loop\<close>



lemma rtrim_token:
  assumes "k \<noteq> []" "\<forall>c\<in>set k. \<not> isspace c"
  shows "rev (dropWhile (\<lambda>c. c \<in> set [CHR 0x20, CHR 0x0A, CHR 0x0D, CHR 0x09]) (rev k)) = k"
proof -
  obtain x xs where r: "rev k = x # xs" using assms(1) by (cases "rev k") auto
  then have "x \<in> set k" by (metis list.set_intros(1) set_rev)
  then have "\<not> isspace x" using assms(2) by blast
  then have "x \<notin> set [CHR 0x20, CHR 0x0A, CHR 0x0D, CHR 0x09]" by (auto simp: isspace_def)
  then have "dropWhile (\<lambda>c. c \<in> set [CHR 0x20, CHR 0x0A, CHR 0x0D, CHR 0x09]) (rev k) = rev k"
    unfolding r by (simp only: dropWhile.simps if_False)
  then show ?thesis by (simp only: rev_rev_ident)
qed

text \<open>
  Claim C1 says that \<open>SET k v\<close> followed by \<open>GET k\<close> returns \<open>v\<close> for all non-empty
  \<open>k\<close> and \<open>v\<close> without control bytes. The key of a \<open>SET\<close> is the first
  whitespace-delimited token, so a key with a space in it is cut there: after
  \<open>SET a b c\<close> the store maps \<open>a\<close> to \<open>b c\<close>, and \<open>GET a b\<close> finds nothing.
\<close>

theorem key_with_space_is_not_found:
  "serve (daemon_init 0) \<lparr>files = {}, denied = {}, log = []\<rparr>
     [\<lparr>req_fd = 3, incoming = Some (''SET '' @ ''a b'' @ '' '' @ ''c''), clock = 0, resp_open = Open_returns 4, resp_write = Write_completes\<rparr>,
      \<lparr>req_fd = 3, incoming = Some (''GET '' @ ''a b''), clock = 0, resp_open = Open_returns 4, resp_write = Write_completes\<rparr>]
   = Serving \<lparr>state = [(''version'', ''1.0''), (''status'', ''running''), (''a'', ''b c'')],
               query_count = 0, start_time = 0\<rparr>
       \<lparr>files = {}, denied = {}, log = [Sent ''OK: Set a = b c'', Sent ''ERROR: Key not found'']\<rparr>"
proof -
  let ?d1 = "\<lparr>state = [(''version'', ''1.0''), (''status'', ''running''), (''a'', ''b c'')],
               query_count = 0, start_time = 0\<rparr>"
  have p1: "process_request (daemon_init 0) 0 ''SET a b c'' = Inr (?d1, ''OK: Set a = b c'', Next)"
    using process_SET_ok [of "''a''" "''b c''" "daemon_init 0" 0]
    by (simp add: isspace_def NL_def daemon_init_def)
  have p2: "process_request ?d1 0 ''GET a b'' = Inr (?d1, ''ERROR: Key not found'', Next)"
    using process_GET [of ?d1 0 "''a b''"] by simp
  have i1: "iteration (daemon_init 0) \<lparr>req_fd = 3, incoming = Some ''SET a b c'', clock = 0, resp_open = Open_returns 4, resp_write = Write_completes\<rparr>
      = Continue ?d1 (Some ''OK: Set a = b c'')"
    using iteration_plain [of "\<lparr>req_fd = 3, incoming = Some ''SET a b c'', clock = 0, resp_open = Open_returns 4, resp_write = Write_completes\<rparr>" "''SET a b c''" "daemon_init 0"]
    by (simp add: NUL_def p1 respond_def send_response_def)
  have i2: "iteration ?d1 \<lparr>req_fd = 3, incoming = Some ''GET a b'', clock = 0, resp_open = Open_returns 4, resp_write = Write_completes\<rparr>
      = Continue ?d1 (Some ''ERROR: Key not found'')"
    using iteration_plain [of "\<lparr>req_fd = 3, incoming = Some ''GET a b'', clock = 0, resp_open = Open_returns 4, resp_write = Write_completes\<rparr>" "''GET a b''" ?d1]
    by (simp add: NUL_def p2 respond_def send_response_def)
  show ?thesis
    using i1 i2 by (simp add: deliver_def)
qed

text \<open>
  Claim C1, amended: for every non-empty key \<open>k\<close> with no whitespace and no NUL byte,
  and every value \<open>v\<close> with no newline and no NUL byte, such that the request
  \<open>SET k v\<close> fits the 1023 bytes read, the Command Processor on \<open>SET k v\<close> stores
  \<open>v\<close> under \<open>k\<close>, and then on \<open>GET k\<close> answers with the payload \<open>VALUE: v\<close> and
  changes nothing. Each response is handed to the sending block, and is in the response
  pipe when the pipe opens and the write completes.
\<close>

theorem set_then_get:
  assumes "k \<noteq> []" and "\<forall>c\<in>set k. \<not> isspace c \<and> c \<noteq> NUL"
    and "NL \<notin> set v" and "NUL \<notin> set v"
    and "length (''SET '' @ k @ '' '' @ v) \<le> 1023"
    and "req_fd ev1 \<ge> 0" and "incoming ev1 = Some (''SET '' @ k @ '' '' @ v)"
    and "req_fd ev2 \<ge> 0" and "incoming ev2 = Some (''GET '' @ k)"
  shows "process_request d (clock ev1) (''SET '' @ k @ '' '' @ v) =
           Inr (d\<lparr>state := AList.update k v (state d)\<rparr>, ''OK: Set '' @ k @ '' = '' @ v, Next)
       \<and> process_request (d\<lparr>state := AList.update k v (state d)\<rparr>) (clock ev2) (''GET '' @ k) =
           Inr (d\<lparr>state := AList.update k v (state d)\<rparr>, ''VALUE: '' @ v, Next)
       \<and> iteration d ev1 =
           respond ev1 (d\<lparr>state := AList.update k v (state d)\<rparr>) (''OK: Set '' @ k @ '' = '' @ v) Next
       \<and> iteration (d\<lparr>state := AList.update k v (state d)\<rparr>) ev2 =
           respond ev2 (d\<lparr>state := AList.update k v (state d)\<rparr>) (''VALUE: '' @ v) Next
       \<and> (resp_open ev1 = Open_returns fd1 \<and> 0 \<le> fd1 \<and> resp_write ev1 = Write_completes
            \<and> resp_open ev2 = Open_returns fd2 \<and> 0 \<le> fd2 \<and> resp_write ev2 = Write_completes \<longrightarrow>
            iteration d ev1 =
              Continue (d\<lparr>state := AList.update k v (state d)\<rparr>) (Some (''OK: Set '' @ k @ '' = '' @ v))
          \<and> iteration (d\<lparr>state := AList.update k v (state d)\<rparr>) ev2 =
              Continue (d\<lparr>state := AList.update k v (state d)\<rparr>) (Some (''VALUE: '' @ v)))"
proof -
  let ?d1 = "d\<lparr>state := AList.update k v (state d)\<rparr>"
  have tok: "\<forall>c\<in>set k. \<not> isspace c" using assms(2) by blast
  have nul1: "NUL \<notin> set (''SET '' @ k @ '' '' @ v)"
    using assms(2,4) by (auto simp: NUL_def)
  have nul2: "NUL \<notin> set (''GET '' @ k)"
    using assms(2) by (auto simp: NUL_def)
  have len2: "length (''GET '' @ k) \<le> 1023" using assms(5) by simp
  have p1: "process_request d (clock ev1) (''SET '' @ k @ '' '' @ v) =
      Inr (?d1, ''OK: Set '' @ k @ '' = '' @ v, Next)"
    using assms(1) tok assms(3) by (rule process_SET_ok)
  have "map_of (state ?d1) k = Some v"
    by (simp add: update_conv')
  then have p2: "process_request ?d1 (clock ev2) (''GET '' @ k) = Inr (?d1, ''VALUE: '' @ v, Next)"
    by (simp only: process_GET rtrim_token [OF assms(1) tok]) simp
  have "iteration d ev1 =
    (case process_request d (clock ev1) (''SET '' @ k @ '' '' @ v) of
       Inl e \<Rightarrow> Terminate e
     | Inr (d', r, c) \<Rightarrow> respond ev1 d' r c)"
    using assms(6,7) _ assms(5) nul1 by (rule iteration_plain) simp
  then have one: "iteration d ev1 = respond ev1 ?d1 (''OK: Set '' @ k @ '' = '' @ v) Next"
    by (simp only: p1) simp
  have "iteration ?d1 ev2 =
    (case process_request ?d1 (clock ev2) (''GET '' @ k) of
       Inl e \<Rightarrow> Terminate e
     | Inr (d', r, c) \<Rightarrow> respond ev2 d' r c)"
    using assms(8,9) _ len2 nul2 by (rule iteration_plain) simp
  then have two: "iteration ?d1 ev2 = respond ev2 ?d1 (''VALUE: '' @ v) Next"
    by (simp only: p2) simp
  have "iteration d ev1 = Continue ?d1 (Some (''OK: Set '' @ k @ '' = '' @ v))"
    if "resp_open ev1 = Open_returns fd1" "0 \<le> fd1" "resp_write ev1 = Write_completes"
    using that one respond_passes [of ev1 fd1 ?d1 "''OK: Set '' @ k @ '' = '' @ v" Next] by simp
  moreover have "iteration ?d1 ev2 = Continue ?d1 (Some (''VALUE: '' @ v))"
    if "resp_open ev2 = Open_returns fd2" "0 \<le> fd2" "resp_write ev2 = Write_completes"
    using that two respond_passes [of ev2 fd2 ?d1 "''VALUE: '' @ v" Next] by simp
  ultimately show ?thesis
    using p1 p2 one two by blast
qed

theorem set_then_get_witness:
  "iteration (daemon_init 0)
     \<lparr>req_fd = 3, incoming = Some ''SET color dark red'', clock = 0, resp_open = Open_returns 4, resp_write = Write_completes\<rparr>
     = Continue \<lparr>state = [(''version'', ''1.0''), (''status'', ''running''), (''color'', ''dark red'')],
                 query_count = 0, start_time = 0\<rparr> (Some ''OK: Set color = dark red'')
   \<and> iteration \<lparr>state = [(''version'', ''1.0''), (''status'', ''running''), (''color'', ''dark red'')],
                 query_count = 0, start_time = 0\<rparr>
         \<lparr>req_fd = 3, incoming = Some ''GET color'', clock = 0, resp_open = Open_returns 4, resp_write = Write_completes\<rparr>
     = Continue \<lparr>state = [(''version'', ''1.0''), (''status'', ''running''), (''color'', ''dark red'')],
                 query_count = 0, start_time = 0\<rparr> (Some ''VALUE: dark red'')"
  using set_then_get [of "''color''" "''dark red''"
      "\<lparr>req_fd = 3, incoming = Some ''SET color dark red'', clock = 0, resp_open = Open_returns 4, resp_write = Write_completes\<rparr>"
      "\<lparr>req_fd = 3, incoming = Some ''GET color'', clock = 0, resp_open = Open_returns 4, resp_write = Write_completes\<rparr>"
      "daemon_init 0" 4 4]
  by (simp add: isspace_def NUL_def NL_def daemon_init_def respond_def send_response_def)






section \<open>The client's transaction\<close>



section \<open>Invariants of the loop\<close>

lemma extract_word_nonempty:
  assumes "extract_word (istringstream a) str = (key, iss)" "\<not> failbit iss"
  shows "key \<noteq> []"
proof (cases "dropWhile isspace a")
  case Nil
  then show ?thesis
    using assms by (auto simp: extract_word_def istringstream_def good_def)
next
  case (Cons x xs)
  then have "\<not> isspace x"
    using hd_dropWhile [of isspace a] by simp
  then have "takeWhile (\<lambda>c. \<not> isspace c) (x # xs) \<noteq> []" by simp
  then show ?thesis
    using assms(1) Cons by (simp add: extract_word_def istringstream_def good_def Let_def)
qed

lemma process_request_effect:
  assumes "process_request d now r = Inr (d', resp, c)"
  shows "start_time d' = start_time d
    \<and> query_count d' = (if r = ''STATUS'' then query_count d + 1 else query_count d)
    \<and> (state d' = state d \<or> (\<exists>k v. k \<noteq> [] \<and> state d' = AList.update k v (state d)))"
proof (cases "r = ''STATUS''")
  case True
  then show ?thesis using assms by (auto simp: process_STATUS)
next
  case False
  show ?thesis
  proof (cases "take 4 r = ''SET ''")
    case True
    obtain key iss where ew: "extract_word (istringstream (drop 4 r)) [] = (key, iss)"
      by (cases "extract_word (istringstream (drop 4 r)) []")
    obtain val iss' where gl: "getline iss [] = (val, iss')"
      by (cases "getline iss []")
    show ?thesis
    proof (cases "failbit iss \<or> failbit iss'")
      case True
      then show ?thesis
        using assms False \<open>take 4 r = ''SET ''\<close> ew gl
        by (auto simp: process_request_def substr_n_0 substr_def split: if_splits)
    next
      case False
      then have key: "key \<noteq> []" using extract_word_nonempty [OF ew] by simp
      have "start_time d' = start_time d \<and> query_count d' = query_count d
          \<and> (\<exists>v. state d' = AList.update key v (state d))"
        using assms \<open>r \<noteq> ''STATUS''\<close> \<open>take 4 r = ''SET ''\<close> ew gl False
        by (auto simp: process_request_def substr_n_0 substr_def split: if_splits)
      then show ?thesis
        using key \<open>r \<noteq> ''STATUS''\<close> by auto
    qed
  next
    case False
    then show ?thesis
      using assms \<open>r \<noteq> ''STATUS''\<close>
      by (auto simp: process_request_def substr_n_0 substr_def erase_find_last_not_of
          simp del: set_simps split: if_splits option.splits)
  qed
qed

lemma iteration_effect:
  assumes "iteration d ev = Continue d' out \<or> iteration d ev = Stop d' out"
  shows "start_time d' = start_time d
    \<and> query_count d' = (if received ev = Some ''STATUS'' then query_count d + 1 else query_count d)
    \<and> (state d' = state d \<or> (\<exists>k v. k \<noteq> [] \<and> state d' = AList.update k v (state d)))"
proof -
  obtain b buf where rd: "read_fd (incoming ev) 1024 1023 = (b, buf)"
    by (cases "read_fd (incoming ev) 1024 1023")
  show ?thesis
  proof (cases "req_fd ev < 0 \<or> b \<le> 0")
    case True
    then have "iteration d ev = Continue d None" "received ev = None"
      using rd by (auto simp: iteration_def received_def)
    then show ?thesis using assms by simp
  next
    case False
    then have rc: "received ev = Some (c_str buf)"
      using rd by (simp add: received_def)
    have it: "iteration d ev = (case process_request d (clock ev) (c_str buf) of
               Inl e \<Rightarrow> Terminate e
             | Inr (d', r, c) \<Rightarrow> respond ev d' r c)"
      using False rd by (simp add: iteration_def)
    show ?thesis
    proof (cases "process_request d (clock ev) (c_str buf)")
      case (Inl e)
      then show ?thesis using assms it by simp
    next
      case (Inr x)
      obtain d1 resp c where x: "x = (d1, resp, c)" by (cases x)
      have "respond ev d1 resp c = Continue d' out \<or> respond ev d1 resp c = Stop d' out"
        using assms it Inr x by simp
      then have "d' = d1" by (rule respond_daemon)
      then show ?thesis
        using process_request_effect [of d "clock ev" "c_str buf" d' resp c] rc Inr x by simp
    qed
  qed
qed

lemma state_step_invariant:
  assumes "state d1 = state d \<or> (\<exists>k v. k \<noteq> [] \<and> state d1 = AList.update k v (state d))"
  shows "(distinct (map fst (state d)) \<longrightarrow> distinct (map fst (state d1)))
    \<and> ([] \<notin> fst ` set (state d) \<longrightarrow> [] \<notin> fst ` set (state d1))"
  using assms
proof
  assume "state d1 = state d"
  then show ?thesis by simp
next
  assume "\<exists>k v. k \<noteq> [] \<and> state d1 = AList.update k v (state d)"
  then obtain k v where "k \<noteq> []" "state d1 = AList.update k v (state d)" by blast
  then show ?thesis by (simp add: distinct_update dom_update)
qed

lemma serve_state_invariant:
  assumes "serve d w evs = Serving d' w' \<or> serve d w evs = Left_loop d' w'"
  shows "start_time d' = start_time d
    \<and> (distinct (map fst (state d)) \<longrightarrow> distinct (map fst (state d')))
    \<and> ([] \<notin> fst ` set (state d) \<longrightarrow> [] \<notin> fst ` set (state d'))"
  using assms
proof (induction evs arbitrary: d w)
  case Nil
  then show ?case by simp
next
  case (Cons ev evs)
  show ?case
  proof (cases "iteration d ev")
    case (Continue d1 out)
    then have "serve d1 (deliver out w) evs = Serving d' w' \<or> serve d1 (deliver out w) evs = Left_loop d' w'"
      using Cons.prems by simp
    then have IH: "start_time d' = start_time d1
      \<and> (distinct (map fst (state d1)) \<longrightarrow> distinct (map fst (state d')))
      \<and> ([] \<notin> fst ` set (state d1) \<longrightarrow> [] \<notin> fst ` set (state d'))"
      by (rule Cons.IH)
    have "start_time d1 = start_time d
      \<and> (state d1 = state d \<or> (\<exists>k v. k \<noteq> [] \<and> state d1 = AList.update k v (state d)))"
      using iteration_effect [of d ev d1 out] Continue by simp
    then have "start_time d1 = start_time d
      \<and> (distinct (map fst (state d)) \<longrightarrow> distinct (map fst (state d1)))
      \<and> ([] \<notin> fst ` set (state d) \<longrightarrow> [] \<notin> fst ` set (state d1))"
      using state_step_invariant [of d1 d] by blast
    then show ?thesis using IH by simp
  next
    case (Stop d1 out)
    then have "d' = d1" using Cons.prems by simp
    moreover have "start_time d1 = start_time d
      \<and> (state d1 = state d \<or> (\<exists>k v. k \<noteq> [] \<and> state d1 = AList.update k v (state d)))"
      using iteration_effect [of d ev d1 out] Stop by simp
    ultimately show ?thesis
      using state_step_invariant [of d1 d] by blast
  next
    case (Terminate e)
    then show ?thesis using Cons.prems by simp
  next
    case Killed
    then show ?thesis using Cons.prems by simp
  next
    case (Blocked d1)
    then show ?thesis using Cons.prems by simp
  qed
qed

lemma serve_query_count:
  assumes "serve d w evs = Serving d' w'"
  shows "query_count d' = query_count d + of_nat (status_served evs)"
  using assms
proof (induction evs arbitrary: d w)
  case Nil
  then show ?case by (simp add: status_served_def)
next
  case (Cons ev evs)
  show ?case
  proof (cases "iteration d ev")
    case (Continue d1 out)
    then have "serve d1 (deliver out w) evs = Serving d' w'"
      using Cons.prems by simp
    then have IH: "query_count d' = query_count d1 + of_nat (status_served evs)"
      by (rule Cons.IH)
    have "query_count d1 = (if received ev = Some ''STATUS'' then query_count d + 1 else query_count d)"
      using iteration_effect [of d ev d1 out] Continue by simp
    then show ?thesis using IH by (simp add: status_served_def)
  next
    case (Stop d1 out)
    then show ?thesis using Cons.prems by simp
  next
    case (Terminate e)
    then show ?thesis using Cons.prems by simp
  next
    case Killed
    then show ?thesis using Cons.prems by simp
  next
    case (Blocked d1)
    then show ?thesis using Cons.prems by simp
  qed
qed

lemma init_state:
  "state (daemon_init t0) = [(''version'', ''1.0''), (''status'', ''running'')]"
  "query_count (daemon_init t0) = 0" "start_time (daemon_init t0) = t0"
  by (simp_all add: daemon_init_def)

lemma sint_small:
  assumes "n < 2 ^ 31"
  shows "sint (of_nat n :: 32 word) = int n"
proof -
  have "sint (of_nat n :: 32 word) = signed_take_bit 31 (int n)"
    by (simp add: signed_of_nat)
  also have "\<dots> = int n"
    using assms by (simp add: signed_take_bit_int_eq_self)
  finally show ?thesis .
qed

lemma card_keys:
  assumes "distinct (map fst al)"
  shows "card (dom (map_of al)) = length al"
proof -
  have "dom (map_of al) = set (map fst al)" by (simp add: dom_map_of_conv_image_fst)
  then show ?thesis using assms distinct_card [of "map fst al"] by simp
qed

lemma iteration_STATUS:
  assumes "req_fd ev \<ge> 0" "incoming ev = Some ''STATUS''"
  shows "iteration d ev = respond ev (d\<lparr>query_count := query_count d + 1\<rparr>)
        (''Status: Running'' @ [NL] @ ''Queries: '' @ to_string (sint (query_count d + 1)) @ [NL]
            @ ''Uptime: '' @ to_string (duration_cast_seconds (clock ev - start_time d)) @ '' seconds'' @ [NL]
            @ ''State entries: '' @ to_string (int (length (state d))) @ [NL]) Next"
  using iteration_plain [OF assms, of d] by (simp add: NUL_def process_STATUS)

lemma iteration_GET:
  assumes "req_fd ev \<ge> 0" "incoming ev = Some (''GET '' @ arg)" "length arg \<le> 1019" "NUL \<notin> set arg"
  shows "iteration d ev = respond ev d
        (case map_of (state d) (rtrim arg) of Some v \<Rightarrow> ''VALUE: '' @ v | None \<Rightarrow> ''ERROR: Key not found'') Next"
proof -
  have "NUL \<notin> set (''GET '' @ arg)" using assms(4) by (simp add: NUL_def)
  moreover have "length (''GET '' @ arg) \<le> 1023" using assms(3) by simp
  ultimately have "iteration d ev =
    (case process_request d (clock ev) (''GET '' @ arg) of
       Inl e \<Rightarrow> Terminate e
     | Inr (d', r, c) \<Rightarrow> respond ev d' r c)"
    using iteration_plain [OF assms(1,2), of d] by simp
  then show ?thesis
    by (simp only: process_GET rtrim_def) simp
qed

section \<open>Claims about reachable states\<close>

text \<open>
  Claim C5 says that the \<open>Queries\<close> value of a \<open>STATUS\<close> response is the running total
  of processed queries. The counter is incremented in the \<open>STATUS\<close> branch only: after
  a \<open>GET\<close> and a \<open>STATUS\<close>, two requests have been processed and the response says
  \<open>Queries: 1\<close>.
\<close>

theorem queries_does_not_count_get:
  "serve (daemon_init 0) \<lparr>files = {}, denied = {}, log = []\<rparr>
     [\<lparr>req_fd = 3, incoming = Some ''GET version'', clock = 0, resp_open = Open_returns 4, resp_write = Write_completes\<rparr>,
      \<lparr>req_fd = 3, incoming = Some ''STATUS'', clock = 0, resp_open = Open_returns 4, resp_write = Write_completes\<rparr>]
   = Serving \<lparr>state = [(''version'', ''1.0''), (''status'', ''running'')], query_count = 1, start_time = 0\<rparr>
       \<lparr>files = {}, denied = {}, log = [Sent ''VALUE: 1.0'',
           Sent ''Status: Running\<newline>Queries: 1\<newline>Uptime: 0 seconds\<newline>State entries: 2\<newline>'']\<rparr>
   \<and> processed [\<lparr>req_fd = 3, incoming = Some ''GET version'', clock = 0, resp_open = Open_returns 4, resp_write = Write_completes\<rparr>,
                 \<lparr>req_fd = 3, incoming = Some ''STATUS'', clock = 0, resp_open = Open_returns 4, resp_write = Write_completes\<rparr>] = 2"
proof -
  let ?e1 = "\<lparr>req_fd = 3, incoming = Some ''GET version'', clock = 0, resp_open = Open_returns 4, resp_write = Write_completes\<rparr>"
  let ?e2 = "\<lparr>req_fd = 3, incoming = Some ''STATUS'', clock = 0, resp_open = Open_returns 4, resp_write = Write_completes\<rparr>"
  let ?d = "\<lparr>state = [(''version'', ''1.0''), (''status'', ''running'')], query_count = 1, start_time = 0\<rparr>"
  have i1: "iteration (daemon_init 0) ?e1 = Continue (daemon_init 0) (Some ''VALUE: 1.0'')"
    using iteration_GET [of ?e1 "''version''" "daemon_init 0"]
    by (simp add: NUL_def rtrim_def respond_def send_response_def init_state)
  have i2: "iteration (daemon_init 0) ?e2 = Continue ?d (Some ''Status: Running\<newline>Queries: 1\<newline>Uptime: 0 seconds\<newline>State entries: 2\<newline>'')"
    using iteration_STATUS [of ?e2 "daemon_init 0"]
    by (simp add: daemon_init_def respond_def send_response_def NL_def to_string_def digits10.simps digit_char_def duration_cast_seconds_def)
  have r1: "received ?e1 = Some ''GET version''"
    using received_plain [of ?e1 "''GET version''"] by (simp add: NUL_def)
  have r2: "received ?e2 = Some ''STATUS''"
    using received_plain [of ?e2 "''STATUS''"] by (simp add: NUL_def)
  show ?thesis
    by (simp add: i1 i2 deliver_def processed_def r1 r2)
qed

text \<open>
  Claim C5, amended: after every sequence of iterations that leaves the daemon serving,
  with fewer than \<open>2^31 - 1\<close> \<open>STATUS\<close> requests among them, the Command Processor
  answers a \<open>STATUS\<close> request with the status text, as \<open>Queries\<close> the number of
  \<open>STATUS\<close> requests served so far, this one included (no other request is counted),
  as \<open>Uptime\<close> the whole seconds of the steady clock since the start of serving, and
  as \<open>State entries\<close> the number of entries of the store; the counter is left at the
  number reported. The response is handed to the sending block, and is in the response
  pipe when the pipe opens and the write completes.
\<close>

theorem status_reports_status_count:
  assumes "serve (daemon_init t0) w evs = Serving d w'"
    and "status_served evs + 1 < 2 ^ 31"
    and "req_fd ev \<ge> 0" and "incoming ev = Some ''STATUS''" and "t0 \<le> clock ev"
  shows "let d' = d\<lparr>query_count := of_nat (status_served evs + 1)\<rparr>;
             response = ''Status: Running\<newline>Queries: '' @ to_string (int (status_served evs + 1))
               @ ''\<newline>Uptime: '' @ to_string ((clock ev - t0) div 1000000000)
               @ '' seconds\<newline>State entries: '' @ to_string (int (length (state d))) @ ''\<newline>''
         in process_request d (clock ev) ''STATUS'' = Inr (d', response, Next)
          \<and> iteration d ev = respond ev d' response Next
          \<and> (resp_open ev = Open_returns fd \<and> 0 \<le> fd \<and> resp_write ev = Write_completes \<longrightarrow>
                iteration d ev = Continue d' (Some response))
          \<and> length (state d) = card (dom (map_of (state d)))"
proof -
  let ?d' = "d\<lparr>query_count := of_nat (status_served evs + 1)\<rparr>"
  let ?response = "''Status: Running\<newline>Queries: '' @ to_string (int (status_served evs + 1))
               @ ''\<newline>Uptime: '' @ to_string ((clock ev - t0) div 1000000000)
               @ '' seconds\<newline>State entries: '' @ to_string (int (length (state d))) @ ''\<newline>''"
  have inv: "start_time d = t0" "distinct (map fst (state d))"
    using serve_state_invariant [of "daemon_init t0" w evs d w'] assms(1)
    by (simp_all add: init_state)
  have qc: "query_count d + 1 = of_nat (status_served evs + 1)"
    using serve_query_count [OF assms(1)] by (simp add: init_state)
  have si: "sint (of_nat (status_served evs + 1) :: 32 word) = int (status_served evs + 1)"
    using assms(2) by (rule sint_small)
  have up: "duration_cast_seconds (clock ev - t0) = (clock ev - t0) div 1000000000"
    using assms(5) by (simp add: duration_cast_seconds_def)
  have "process_request d (clock ev) ''STATUS'' =
     Inr (d\<lparr>query_count := query_count d + 1\<rparr>,
          ''Status: Running'' @ [NL] @ ''Queries: '' @ to_string (sint (query_count d + 1)) @ [NL]
            @ ''Uptime: '' @ to_string (duration_cast_seconds (clock ev - start_time d)) @ '' seconds'' @ [NL]
            @ ''State entries: '' @ to_string (int (length (state d))) @ [NL], Next)"
    by (rule process_STATUS)
  then have pr: "process_request d (clock ev) ''STATUS'' = Inr (?d', ?response, Next)"
    by (simp only: qc si inv(1) up) (simp add: NL_def)
  have "iteration d ev = respond ev (d\<lparr>query_count := query_count d + 1\<rparr>)
        (''Status: Running'' @ [NL] @ ''Queries: '' @ to_string (sint (query_count d + 1)) @ [NL]
            @ ''Uptime: '' @ to_string (duration_cast_seconds (clock ev - start_time d)) @ '' seconds'' @ [NL]
            @ ''State entries: '' @ to_string (int (length (state d))) @ [NL]) Next"
    using assms(3,4) by (rule iteration_STATUS)
  then have it: "iteration d ev = respond ev ?d' ?response Next"
    by (simp only: qc si inv(1) up) (simp add: NL_def)
  have "iteration d ev = Continue ?d' (Some ?response)"
    if "resp_open ev = Open_returns fd" "0 \<le> fd" "resp_write ev = Write_completes"
    using that it respond_passes [of ev fd ?d' ?response Next] by simp
  then have ok: "resp_open ev = Open_returns fd \<and> 0 \<le> fd \<and> resp_write ev = Write_completes \<longrightarrow>
      iteration d ev = Continue ?d' (Some ?response)"
    by blast
  have ck: "length (state d) = card (dom (map_of (state d)))"
    using card_keys [OF inv(2)] by simp
  show ?thesis
    unfolding Let_def by (rule conjI [OF pr conjI [OF it conjI [OF ok ck]]])
qed

theorem status_reports_status_count_witness:
  "iteration \<lparr>state = [(''version'', ''1.0''), (''status'', ''running'')], query_count = 1, start_time = 0\<rparr>
      \<lparr>req_fd = 3, incoming = Some ''STATUS'', clock = 2500000000, resp_open = Open_returns 4, resp_write = Write_completes\<rparr>
   = Continue \<lparr>state = [(''version'', ''1.0''), (''status'', ''running'')], query_count = 2, start_time = 0\<rparr>
       (Some ''Status: Running\<newline>Queries: 2\<newline>Uptime: 2 seconds\<newline>State entries: 2\<newline>'')"
proof -
  let ?e1 = "\<lparr>req_fd = 3, incoming = Some ''STATUS'', clock = 1000000000, resp_open = Open_returns 4, resp_write = Write_completes\<rparr>"
  let ?e2 = "\<lparr>req_fd = 3, incoming = Some ''GET version'', clock = 1500000000, resp_open = Open_returns 4, resp_write = Write_completes\<rparr>"
  let ?ev = "\<lparr>req_fd = 3, incoming = Some ''STATUS'', clock = 2500000000, resp_open = Open_returns 4, resp_write = Write_completes\<rparr>"
  let ?d = "\<lparr>state = [(''version'', ''1.0''), (''status'', ''running'')], query_count = 1, start_time = 0\<rparr>"
  let ?w = "\<lparr>files = {}, denied = {}, log = [Sent ''Status: Running\<newline>Queries: 1\<newline>Uptime: 1 seconds\<newline>State entries: 2\<newline>'', Sent ''VALUE: 1.0'']\<rparr>"
  have i1: "iteration (daemon_init 0) ?e1 = Continue ?d (Some ''Status: Running\<newline>Queries: 1\<newline>Uptime: 1 seconds\<newline>State entries: 2\<newline>'')"
    using iteration_STATUS [of ?e1 "daemon_init 0"]
    by (simp add: daemon_init_def respond_def send_response_def NL_def to_string_def digits10.simps digit_char_def duration_cast_seconds_def)
  have i2: "iteration ?d ?e2 = Continue ?d (Some ''VALUE: 1.0'')"
    using iteration_GET [of ?e2 "''version''" ?d]
    by (simp add: NUL_def rtrim_def respond_def send_response_def)
  have run: "serve (daemon_init 0) \<lparr>files = {}, denied = {}, log = []\<rparr> [?e1, ?e2] = Serving ?d ?w"
    by (simp add: i1 i2 deliver_def)
  have r1: "received ?e1 = Some ''STATUS''"
    using received_plain [of ?e1 "''STATUS''"] by (simp add: NUL_def)
  have r2: "received ?e2 = Some ''GET version''"
    using received_plain [of ?e2 "''GET version''"] by (simp add: NUL_def)
  have n: "status_served [?e1, ?e2] = 1"
    by (simp add: status_served_def r1 r2)
  show ?thesis
    using status_reports_status_count [OF run, of ?ev 4]
    by (simp add: n Let_def to_string_def digits10.simps digit_char_def respond_def send_response_def)
qed

text \<open>
  Claim C10: in every state the daemon reaches from its start, serving or leaving the
  loop, the store has no entry under the empty key; so a \<open>GET\<close> whose key trims to
  the empty string gets the key-not-found response there.
\<close>

theorem store_has_no_empty_key:
  assumes "serve (daemon_init t0) w evs = Serving d w' \<or> serve (daemon_init t0) w evs = Left_loop d w'"
  shows "[] \<notin> fst ` set (state d)
    \<and> (\<forall>arg now. rtrim arg = [] \<longrightarrow>
          process_request d now (''GET '' @ arg) = Inr (d, ''ERROR: Key not found'', Next))"
proof -
  have "[] \<notin> fst ` set (state (daemon_init t0))" by (simp add: init_state)
  then have nokey: "[] \<notin> fst ` set (state d)"
    using serve_state_invariant [OF assms] by blast
  then have none: "map_of (state d) [] = None"
    by (simp add: map_of_eq_None_iff)
  have "process_request d now (''GET '' @ arg) = Inr (d, ''ERROR: Key not found'', Next)"
    if "rtrim arg = []" for arg now
  proof -
    have "process_request d now (''GET '' @ arg) =
        Inr (d, (case map_of (state d) (rtrim arg) of
                   Some v \<Rightarrow> ''VALUE: '' @ v | None \<Rightarrow> ''ERROR: Key not found''), Next)"
      unfolding rtrim_def by (rule process_GET)
    then show ?thesis by (simp only: that none option.case)
  qed
  then show ?thesis
    using nokey by blast
qed

theorem store_has_no_empty_key_witness:
  "[] \<notin> fst ` set [(''version'', ''1.0''), (''status'', ''running''), (''a'', ''b'')]
   \<and> process_request \<lparr>state = [(''version'', ''1.0''), (''status'', ''running''), (''a'', ''b'')], query_count = 0, start_time = 0\<rparr> 0 ''GET  \<newline>''
       = Inr (\<lparr>state = [(''version'', ''1.0''), (''status'', ''running''), (''a'', ''b'')], query_count = 0, start_time = 0\<rparr>,
              ''ERROR: Key not found'', Next)"
proof -
  let ?e1 = "\<lparr>req_fd = 3, incoming = Some ''SET a b'', clock = 0, resp_open = Open_returns 4, resp_write = Write_completes\<rparr>"
  let ?d = "\<lparr>state = [(''version'', ''1.0''), (''status'', ''running''), (''a'', ''b'')], query_count = 0, start_time = 0\<rparr>"
  have p1: "process_request (daemon_init 0) 0 ''SET a b'' = Inr (?d, ''OK: Set a = b'', Next)"
    using process_SET_ok [of "''a''" "''b''" "daemon_init 0" 0]
    by (simp add: isspace_def NL_def daemon_init_def)
  have i1: "iteration (daemon_init 0) ?e1 = Continue ?d (Some ''OK: Set a = b'')"
    using iteration_plain [of ?e1 "''SET a b''" "daemon_init 0"]
    by (simp add: NUL_def p1 respond_def send_response_def)
  have run: "serve (daemon_init 0) \<lparr>files = {}, denied = {}, log = []\<rparr> [?e1] = Serving ?d \<lparr>files = {}, denied = {}, log = [Sent ''OK: Set a = b'']\<rparr>"
    by (simp add: i1 deliver_def)
  have tr: "rtrim '' \<newline>'' = []" by (simp add: rtrim_def)
  show ?thesis
    using store_has_no_empty_key [OF disjI1 [OF run]] tr by simp
qed

section \<open>Claims about the liveness check\<close>

lemma digit_char_facts:
  assumes "n < 10"
  shows "isdigit (digit_char n)" "digit_val (digit_char n) = n"
proof -
  have n: "n \<in> set [0, 1, 2, 3, 4, 5, 6, 7, 8, 9]"
    using assms by simp arith
  show "isdigit (digit_char n)"
    using n by (auto simp: digit_char_def isdigit_def)
  show "digit_val (digit_char n) = n"
    using n by (auto simp: digit_char_def digit_val_def)
qed

lemma isdigit_plain:
  assumes "isdigit c"
  shows "\<not> isspace c" "c \<noteq> CHR ''-''" "c \<noteq> CHR ''+''"
  using assms by (auto simp: isdigit_def isspace_def)

lemma digits10_digits: "\<forall>c\<in>set (digits10 n). isdigit c"
proof (induction n rule: digits10.induct)
  case (1 n)
  show ?case
  proof (cases "n < 10")
    case True
    then show ?thesis by (simp add: digits10.simps [of n] digit_char_facts)
  next
    case False
    then have "\<forall>c\<in>set (digits10 (n div 10)). isdigit c" by (rule "1.IH")
    moreover have "isdigit (digit_char (n mod 10))" by (simp add: digit_char_facts)
    ultimately show ?thesis using False by (simp add: digits10.simps [of n])
  qed
qed

lemma digits10_nonempty: "digits10 n \<noteq> []"
  by (simp add: digits10.simps [of n])

lemma decimal_snoc: "decimal (ds @ [c]) = 10 * decimal ds + digit_val c"
  by (simp add: decimal_def)

lemma decimal_digits10: "decimal (digits10 n) = n"
proof (induction n rule: digits10.induct)
  case (1 n)
  show ?case
  proof (cases "n < 10")
    case True
    then show ?thesis by (simp add: digits10.simps [of n] decimal_def digit_char_facts)
  next
    case False
    then have "decimal (digits10 (n div 10)) = n div 10" by (rule "1.IH")
    then show ?thesis
      using False by (simp add: digits10.simps [of n] decimal_snoc digit_char_facts)
  qed
qed

lemma extract_int_number:
  assumes "dropWhile isspace a = r" "r \<noteq> []" "hd r \<noteq> CHR ''-''" "hd r \<noteq> CHR ''+''"
    and "takeWhile isdigit r = ds" "ds \<noteq> []"
    and "INT_MIN \<le> int (decimal ds)" "int (decimal ds) \<le> INT_MAX"
  shows "fst (extract_int (istringstream a) u) = int (decimal ds)"
  using assms by (simp add: extract_int_def istringstream_def good_def Let_def)

lemma extract_int_decimal:
  assumes "\<forall>c\<in>set ws. isspace c" "int p \<le> INT_MAX" "rest = [] \<or> \<not> isdigit (hd rest)"
  shows "fst (extract_int (istringstream (ws @ digits10 p @ rest)) u) = int p"
proof -
  let ?ds = "digits10 p"
  have ne: "?ds \<noteq> []" by (rule digits10_nonempty)
  have dig: "\<forall>c\<in>set ?ds. isdigit c" by (rule digits10_digits)
  then have "isdigit (hd ?ds)" using ne by (cases ?ds) auto
  then have x: "\<not> isspace (hd ?ds)" "hd ?ds \<noteq> CHR ''-''" "hd ?ds \<noteq> CHR ''+''"
    using isdigit_plain [of "hd ?ds"] by simp_all
  have "dropWhile isspace (ws @ ?ds @ rest) = dropWhile isspace (?ds @ rest)"
    using assms(1) by (simp add: dropWhile_append2)
  also have "\<dots> = ?ds @ rest"
    using ne x(1) by (cases ?ds) auto
  finally have dw: "dropWhile isspace (ws @ ?ds @ rest) = ?ds @ rest" .
  have hd: "hd (?ds @ rest) = hd ?ds" using ne by simp
  have tw: "takeWhile isdigit (?ds @ rest) = ?ds"
    using dig assms(3) by (cases rest) (auto simp: takeWhile_append2)
  have v: "decimal ?ds = p" by (rule decimal_digits10)
  have "fst (extract_int (istringstream (ws @ ?ds @ rest)) u) = int (decimal ?ds)"
    using dw _ _ _ tw ne
  proof (rule extract_int_number)
    show "?ds @ rest \<noteq> []" using ne by simp
    show "hd (?ds @ rest) \<noteq> CHR ''-''" "hd (?ds @ rest) \<noteq> CHR ''+''"
      using x hd by simp_all
    show "INT_MIN \<le> int (decimal ?ds)" by (simp add: INT_MIN_def)
    show "int (decimal ?ds) \<le> INT_MAX" using assms(2) v by simp
  qed
  then show ?thesis by (simp only: v)
qed

lemma extract_int_no_number:
  assumes "dropWhile isspace c = x # xs" "\<not> isdigit x" "x \<noteq> CHR ''-''" "x \<noteq> CHR ''+''"
  shows "extract_int (istringstream c) u = (0, \<lparr>pending = x # xs, eofbit = False, failbit = True\<rparr>)"
  using assms by (simp add: extract_int_def istringstream_def good_def Let_def)

text \<open>
  What the check does on the markers it expects: it returns false when the marker file
  does not exist; when the marker holds a decimal process identifier within the range
  of \<open>int\<close> (after optional whitespace, and followed by no further digit) it returns
  true if and only if \<open>kill\<close> with signal 0 succeeds on that identifier; when the
  marker starts, after optional whitespace, with a byte that is neither a digit nor a
  sign, the identifier probed is 0; and it throws exactly when the existence query on the
  marker itself fails.
\<close>

theorem liveness_check:
  "(pid_file sys = Absent \<longrightarrow> is_daemon_running sys = Inr False)
   \<and> (pid_file sys = Content (ws @ digits10 p @ rest) \<and> (\<forall>c\<in>set ws. isspace c) \<and> int p \<le> INT_MAX
        \<and> (rest = [] \<or> \<not> isdigit (hd rest)) \<longrightarrow>
        is_daemon_running sys = Inr (kill0 sys (int p) = 0))
   \<and> (pid_file sys = Content c \<and> dropWhile isspace c = x # xs \<and> \<not> isdigit x \<and> x \<noteq> CHR ''-'' \<and> x \<noteq> CHR ''+'' \<longrightarrow>
        is_daemon_running sys = Inr (kill0 sys 0 = 0))
   \<and> (is_daemon_running sys = Inl Filesystem_error \<longleftrightarrow> pid_file sys = Stat_failure)"
proof -
  have "is_daemon_running sys = Inr (kill0 sys (int p) = 0)"
    if "pid_file sys = Content (ws @ digits10 p @ rest)" "\<forall>c\<in>set ws. isspace c" "int p \<le> INT_MAX"
       "rest = [] \<or> \<not> isdigit (hd rest)"
  proof -
    obtain pid s where ex: "extract_int (istringstream (ws @ digits10 p @ rest)) (uninitialised sys) = (pid, s)"
      by (cases "extract_int (istringstream (ws @ digits10 p @ rest)) (uninitialised sys)")
    then have "pid = int p"
      using extract_int_decimal [OF that(2-4), of "uninitialised sys"] by simp
    then show ?thesis
      using that(1) ex by (simp add: is_daemon_running_def)
  qed
  moreover have "is_daemon_running sys = Inr (kill0 sys 0 = 0)"
    if "pid_file sys = Content c" "dropWhile isspace c = x # xs" "\<not> isdigit x" "x \<noteq> CHR ''-''" "x \<noteq> CHR ''+''"
    using that(1) extract_int_no_number [OF that(2-5), of "uninitialised sys"]
    by (simp add: is_daemon_running_def)
  moreover have "is_daemon_running sys = Inl Filesystem_error \<longleftrightarrow> pid_file sys = Stat_failure"
    by (cases "pid_file sys") (simp_all add: is_daemon_running_def split: prod.splits)
  moreover have "pid_file sys = Absent \<longrightarrow> is_daemon_running sys = Inr False"
    by (simp add: is_daemon_running_def)
  ultimately show ?thesis by blast
qed

theorem liveness_check_witness:
  "is_daemon_running \<lparr>pid_file = Absent, uninitialised = 7, kill0 = (\<lambda>p. if p = 0 \<or> p = 4242 then 0 else - 1)\<rparr> = Inr False
   \<and> is_daemon_running \<lparr>pid_file = Content ''4242'', uninitialised = 7, kill0 = (\<lambda>p. if p = 0 \<or> p = 4242 then 0 else - 1)\<rparr> = Inr True
   \<and> is_daemon_running \<lparr>pid_file = Content ''4243'', uninitialised = 7, kill0 = (\<lambda>p. if p = 0 \<or> p = 4242 then 0 else - 1)\<rparr> = Inr False
   \<and> is_daemon_running \<lparr>pid_file = Content '' x'', uninitialised = 7, kill0 = (\<lambda>p. if p = 0 \<or> p = 4242 then 0 else - 1)\<rparr> = Inr True
   \<and> is_daemon_running \<lparr>pid_file = Stat_failure, uninitialised = 7, kill0 = (\<lambda>p. if p = 0 \<or> p = 4242 then 0 else - 1)\<rparr> = Inl Filesystem_error"
proof -
  let ?k = "\<lambda>p::int. if p = 0 \<or> p = 4242 then 0 else - 1 :: int"
  have d1: "digits10 4242 = ''4242''" and d2: "digits10 4243 = ''4243''"
    by (simp_all add: digits10.simps digit_char_def)
  show ?thesis
    using liveness_check [of "\<lparr>pid_file = Absent, uninitialised = 7, kill0 = ?k\<rparr>"]
      liveness_check [of "\<lparr>pid_file = Content ''4242'', uninitialised = 7, kill0 = ?k\<rparr>" "[]" 4242 "[]"]
      liveness_check [of "\<lparr>pid_file = Content ''4243'', uninitialised = 7, kill0 = ?k\<rparr>" "[]" 4243 "[]"]
      liveness_check [of "\<lparr>pid_file = Content '' x'', uninitialised = 7, kill0 = ?k\<rparr>" _ _ _ "'' x''" "CHR ''x''" "[]"]
      liveness_check [of "\<lparr>pid_file = Stat_failure, uninitialised = 7, kill0 = ?k\<rparr>"]
    by (simp add: d1 d2 INT_MAX_def isspace_def isdigit_def)
qed

text \<open>
  Claim C4 says that \<open>is_daemon_running\<close> returns true if and only if the marker
  exists and the process it references exists, and that a marker from which no process
  identifier can be parsed counts as "not running". The code does not look at the state
  of the stream after the extraction: a marker that starts with something other than a
  number leaves \<open>pid\<close> at 0, and \<open>kill(0, 0)\<close> probes the process group of the
  caller, which always has a member, the caller. The theorem evaluates the code on the
  marker \<open>not a pid\<close>, in a system where that probe succeeds and the only other
  process that can be signalled is 4242: the extraction fails and the check returns true.
\<close>

theorem unparsable_marker_reports_running:
  "failbit (snd (extract_int (istringstream ''not a pid'') 7))
   \<and> is_daemon_running \<lparr>pid_file = Content ''not a pid'', uninitialised = 7,
        kill0 = (\<lambda>p. if p = 0 \<or> p = 4242 then 0 else - 1)\<rparr> = Inr True"
  by (simp add: is_daemon_running_def extract_int_def istringstream_def good_def isspace_def isdigit_def)

end
